theory Spec2Isabelle
  imports Main "HOL-Library.Word"
begin

section \<open>Values shared by the whole package\<close>

text \<open>
  Go's \<open>error\<close> values that the package can hand to its callers. A \<open>nil\<close> error is
  \<open>None\<close>; \<open>ErrServerStopped\<close> is \<open>grpc.ErrServerStopped\<close>, \<open>DeadlineExceeded\<close> and
  \<open>Canceled\<close> are the two errors of package \<open>context\<close>, and \<open>ErrOther\<close> stands for any
  other error of the gRPC runtime.
\<close>

datatype error = ErrServerStopped | DeadlineExceeded | Canceled | ErrOther string

text \<open>
  Machine integers. The model is of a 64-bit target (amd64, arm64), where Go's \<open>int\<close>
  has 64 bits; \<open>int32\<close> has 32 bits everywhere. Both are signed: \<open>sint\<close> reads them.
\<close>

type_synonym go_int = "64 word"
type_synonym int32 = "32 word"

section \<open>Configuration surface: the default buffer size\<close>

text \<open>
  \<^verbatim>\<open>var bufferSize int32 = 1 << 20\<close>. The package-level variable is threaded through
  explicitly: every function that reads or writes it takes (and returns) its value.
\<close>

definition bufferSize_init :: int32 where
  "bufferSize_init = push_bit 20 1"

text \<open>
  \<^verbatim>\<open>
  func SetBufferSize(size int) {
      if size <= 0 { panic("grpctest: buffer size must be positive") }
      atomic.StoreInt32(&bufferSize, int32(size))
  }
  \<close>
  The result is the panic message, if the call panics, and the value of the global after
  the call. The conversion \<open>int32(size)\<close> keeps the low 32 bits (\<open>ucast\<close>).
\<close>

definition SetBufferSize :: "go_int \<Rightarrow> int32 \<Rightarrow> string option \<times> int32" where
  "SetBufferSize size' bufferSize =
     (if sint size' \<le> 0 then (Some ''grpctest: buffer size must be positive'', bufferSize)
      else (None, ucast size'))"

text \<open>
  \<^verbatim>\<open>func getBufferSize() int { return int(atomic.LoadInt32(&bufferSize)) }\<close>:
  the conversion \<open>int(...)\<close> of an \<open>int32\<close> extends the sign (\<open>scast\<close>).
\<close>

definition getBufferSize :: "int32 \<Rightarrow> go_int" where
  "getBufferSize bufferSize = scast bufferSize"

section \<open>The server\<close>

text \<open>
  Collaborators from outside the repository, as far as the package uses them.

  \<^item> \<open>bufconn.Listen(sz)\<close> allocates a listener that only stores its capacity \<open>sz\<close>
    and a channel \<open>done\<close> (\<open>doneClosed\<close> says that it has been closed); \<open>Listener.Close\<close>
    closes \<open>done\<close> unless it is closed already.
  \<^item> \<open>grpc.NewServer(opts...)\<close> allocates a server; \<open>quit\<close> says that \<open>Stop\<close> (or
    \<open>GracefulStop\<close>) has been called on it, and \<open>lis\<close> that a running \<open>Serve\<close> call has
    registered the listener with it.
\<close>

typedecl ServerOption

record Listener =
  sz :: go_int
  doneClosed :: bool

record grpc_Server =
  sopts :: "ServerOption list"
  quit :: bool
  lis :: bool

definition bufconn_Listen :: "go_int \<Rightarrow> Listener" where
  "bufconn_Listen n = \<lparr>sz = n, doneClosed = False\<rparr>"

definition Listener_Close :: "Listener \<Rightarrow> Listener" where
  "Listener_Close l = l\<lparr>doneClosed := True\<rparr>"

definition grpc_NewServer :: "ServerOption list \<Rightarrow> grpc_Server" where
  "grpc_NewServer opts = \<lparr>sopts = opts, quit = False, lis = False\<rparr>"

text \<open>
  \<^verbatim>\<open>
  type Server struct {
      *grpc.Server
      listener  *bufconn.Listener
      once      sync.Once
      serveErr  error
      serveDone chan struct{}
  }
  \<close>
  \<open>once\<close> is the flag of the \<open>sync.Once\<close> (set when \<open>Do\<close> has run its function), and a
  channel that is only ever closed is the flag \<open>serveDone\<close>: \<open>True\<close> once it is closed.
\<close>

record Server =
  Server :: grpc_Server
  listener :: Listener
  once :: bool
  serveErr :: "error option"
  serveDone :: bool

text \<open>
  \<^verbatim>\<open>
  func NewServer(opts ...grpc.ServerOption) *Server {
      return &Server{
          Server:    grpc.NewServer(opts...),
          listener:  bufconn.Listen(getBufferSize()),
          serveDone: make(chan struct{}),
      }
  }
  \<close>
\<close>

definition NewServer :: "int32 \<Rightarrow> ServerOption list \<Rightarrow> Server" where
  "NewServer bufferSize opts =
     \<lparr>Server = grpc_NewServer opts,
      listener = bufconn_Listen (getBufferSize bufferSize),
      once = False,
      serveErr = None,
      serveDone = False\<rparr>"

section \<open>One server and its goroutines\<close>

text \<open>
  The methods of \<open>Server\<close> run in several goroutines, so the model is a transition system
  whose steps are the atomic actions of the source; a run is any interleaving of them.

  The goroutine that \<open>Serve\<close> starts is
  \<^verbatim>\<open>
  go func() {
      s.serveErr = s.Server.Serve(s.listener)
      close(s.serveDone)
  }()
  \<close>
  and is at one of these places: \<open>AtServe\<close>, started and about to call
  \<open>s.Server.Serve\<close>; \<open>InServe\<close>, inside the accept loop of that call; \<open>AtClose\<close>, the call
  has returned and its result is in \<open>serveErr\<close>; \<open>Exited\<close>; \<open>Crashed\<close>, after the run-time
  panic of closing a closed channel.
\<close>

datatype pc = AtServe | InServe | AtClose | Exited | Crashed

text \<open>What the package does to its collaborators is recorded, in order, in a trace.\<close>

datatype effect =
    Spawned
  | Stopped
  | ListenerClosed
  | ServeReturned "error option"
  | SignalFired

record state =
  srv :: Server
  goroutines :: "pc list"
  trace :: "effect list"

definition init :: "int32 \<Rightarrow> ServerOption list \<Rightarrow> state" where
  "init bufferSize opts = \<lparr>srv = NewServer bufferSize opts, goroutines = [], trace = []\<rparr>"

text \<open>
  \<^verbatim>\<open>
  func (s *Server) Serve() {
      s.once.Do(func() { go func() { ... }() })
  }
  \<close>
  \<open>sync.Once.Do\<close> calls its argument if and only if it is the first call of \<open>Do\<close> on this
  \<open>Once\<close>; it holds a mutex meanwhile, so the test of the flag and the spawn are one step.
\<close>

definition Serve :: "state \<Rightarrow> state" where
  "Serve st =
     (if once (srv st) then st
      else st\<lparr>srv := (srv st)\<lparr>once := True\<rparr>,
              goroutines := goroutines st @ [AtServe],
              trace := trace st @ [Spawned]\<rparr>)"

text \<open>
  \<open>grpc.Server.Stop\<close>: fires \<open>quit\<close> and closes the listeners that running \<open>Serve\<close> calls
  have registered. It is safe on a server that never served.
\<close>

definition Stop :: "state \<Rightarrow> state" where
  "Stop st =
     (let s = srv st in
      st\<lparr>srv := s\<lparr>Server := (Server s)\<lparr>quit := True, lis := False\<rparr>,
                    listener := (if lis (Server s) then Listener_Close (listener s)
                                 else listener s)\<rparr>,
         trace := trace st @ [Stopped]\<rparr>)"

definition listener_Close :: "state \<Rightarrow> state" where
  "listener_Close st =
     st\<lparr>srv := (srv st)\<lparr>listener := Listener_Close (listener (srv st))\<rparr>,
        trace := trace st @ [ListenerClosed]\<rparr>"

text \<open>
  \<^verbatim>\<open>
  func (s *Server) Close() {
      s.Stop()
      s.listener.Close()
  }
  \<close>
\<close>

definition Close :: "state \<Rightarrow> state" where
  "Close st = listener_Close (Stop st)"

text \<open>
  \<^verbatim>\<open>
  func (s *Server) Err() error {
      <-s.serveDone
      return s.serveErr
  }
  \<close>
  A receive from a channel that is never sent on returns only when the channel is
  closed: until then the call blocks.
\<close>

datatype 'a wait = Blocks | Returns 'a

definition Err :: "state \<Rightarrow> error option wait" where
  "Err st = (if serveDone (srv st) then Returns (serveErr (srv st)) else Blocks)"

text \<open>
  \<open>grpc.Server.Serve(lis)\<close>, from its documentation: called after \<open>Stop\<close> it closes \<open>lis\<close>
  and returns \<open>ErrServerStopped\<close>; otherwise it registers \<open>lis\<close> and accepts until
  \<open>lis.Accept\<close> fails, then returns \<open>nil\<close> if \<open>Stop\<close> was called and the error of \<open>Accept\<close>
  if not, and \<open>lis\<close> is closed when it returns. \<open>Accept\<close> on a bufconn listener fails
  (with the error "closed") exactly when the listener is closed.

  \<open>serve_return e\<close> is the return of that call with the error \<open>e\<close> of \<open>Accept\<close>, followed
  by the assignment to \<open>s.serveErr\<close>.
\<close>

definition serve_return :: "error \<Rightarrow> nat \<Rightarrow> state \<Rightarrow> state" where
  "serve_return e i st =
     (let s = srv st; r = (if quit (Server s) then None else Some e) in
      st\<lparr>srv := s\<lparr>Server := (Server s)\<lparr>lis := False\<rparr>,
                    listener := Listener_Close (listener s),
                    serveErr := r\<rparr>,
         goroutines := (goroutines st)[i := AtClose],
         trace := trace st @ [ServeReturned r]\<rparr>)"

definition goroutine_step :: "nat \<Rightarrow> state \<Rightarrow> state" where
  "goroutine_step i st =
     (if length (goroutines st) \<le> i then st
      else
        (let s = srv st in
         case goroutines st ! i of
           AtServe \<Rightarrow>
             (if quit (Server s)
              then st\<lparr>srv := s\<lparr>listener := Listener_Close (listener s),
                                 serveErr := Some ErrServerStopped\<rparr>,
                      goroutines := (goroutines st)[i := AtClose],
                      trace := trace st @ [ServeReturned (Some ErrServerStopped)]\<rparr>
              else st\<lparr>srv := s\<lparr>Server := (Server s)\<lparr>lis := True\<rparr>\<rparr>,
                      goroutines := (goroutines st)[i := InServe]\<rparr>)
         | InServe \<Rightarrow>
             (if doneClosed (listener s) then serve_return (ErrOther ''closed'') i st
              else st)
         | AtClose \<Rightarrow>
             (if serveDone s then st\<lparr>goroutines := (goroutines st)[i := Crashed]\<rparr>
              else st\<lparr>srv := s\<lparr>serveDone := True\<rparr>,
                      goroutines := (goroutines st)[i := Exited],
                      trace := trace st @ [SignalFired]\<rparr>)
         | Exited \<Rightarrow> st
         | Crashed \<Rightarrow> st))"

text \<open>
  The accept loop of goroutine \<open>i\<close> may also end with any other fatal error \<open>e\<close> of the
  runtime.
\<close>

definition serve_fault :: "nat \<Rightarrow> string \<Rightarrow> state \<Rightarrow> state" where
  "serve_fault i e st =
     (if i < length (goroutines st) \<and> goroutines st ! i = InServe
      then serve_return (ErrOther e) i st else st)"

text \<open>
  The events of a run: a call of \<open>Serve\<close> by any goroutine, the two statements of
  \<open>Close\<close> (\<open>Stop\<close> is also reachable by itself, through the embedded server), a step of
  goroutine \<open>i\<close>, and a fault of its accept loop.
\<close>

datatype event =
    CallServe
  | CallStop
  | CallListenerClose
  | Sched nat
  | Fault nat string

fun step :: "event \<Rightarrow> state \<Rightarrow> state" where
  "step CallServe st = Serve st"
| "step CallStop st = Stop st"
| "step CallListenerClose st = listener_Close st"
| "step (Sched i) st = goroutine_step i st"
| "step (Fault i e) st = serve_fault i e st"

fun run :: "event list \<Rightarrow> state \<Rightarrow> state" where
  "run [] st = st"
| "run (ev # evs) st = run evs (step ev st)"

text \<open>The results of the \<open>Serve\<close> calls of the runtime that a trace records, in order.\<close>

fun returned :: "effect list \<Rightarrow> error option list" where
  "returned [] = []"
| "returned (ServeReturned r # es) = r # returned es"
| "returned (_ # es) = returned es"

section \<open>The process: the global default and all servers\<close>

text \<open>
  \<open>bufferSize\<close> is a variable of the package, shared by all servers of the process. A
  world holds it next to every server constructed so far (a \<open>*Server\<close> is an index into
  \<open>servers\<close>). A panic ends the process: it is the \<open>Inl\<close> result.
\<close>

record world =
  bufferSize :: int32
  servers :: "state list"

datatype op =
    OpSetBufferSize go_int
  | OpNewServer "ServerOption list"
  | OpServer nat event

fun exec :: "op \<Rightarrow> world \<Rightarrow> string + world" where
  "exec (OpSetBufferSize n) w =
     (case SetBufferSize n (bufferSize w) of
        (Some msg, _) \<Rightarrow> Inl msg
      | (None, b) \<Rightarrow> Inr (w\<lparr>bufferSize := b\<rparr>))"
| "exec (OpNewServer opts) w =
     Inr (w\<lparr>servers := servers w @ [init (bufferSize w) opts]\<rparr>)"
| "exec (OpServer i ev) w =
     (if i < length (servers w)
      then Inr (w\<lparr>servers := (servers w)[i := step ev (servers w ! i)]\<rparr>)
      else Inl ''invalid memory address or nil pointer dereference'')"

fun exec_all :: "op list \<Rightarrow> world \<Rightarrow> string + world" where
  "exec_all [] w = Inr w"
| "exec_all (x # xs) w =
     (case exec x w of Inl msg \<Rightarrow> Inl msg | Inr w' \<Rightarrow> exec_all xs w')"

definition capacity :: "state \<Rightarrow> go_int" where
  "capacity st = sz (listener (srv st))"

section \<open>Client connections\<close>

subsection \<open>Dial options\<close>

text \<open>
  A \<open>grpc.DialOption\<close> is an object with one method, \<open>apply(*dialOptions)\<close>: a function
  that updates the options of the connection under construction. Of the fields of
  \<open>dialOptions\<close> the model keeps the dialer and the credentials of the transport, the
  interceptors and the default call options (where the size limits live).

  A dialer is either the closure that \<open>ClientConnContext\<close> builds,
  \<^verbatim>\<open>func(context.Context, string) (net.Conn, error) { return s.listener.Dial() }\<close>,
  or one that the caller wrote.
\<close>

datatype dialer = ListenerDial | CallerDialer nat

datatype credentials = Insecure | CallerCredentials nat

record dialOptions =
  Dialer :: "dialer option"
  TransportCredentials :: "credentials option"
  unaryInt :: "nat option"
  chainUnaryInts :: "nat list"
  callOptions :: "nat list"

type_synonym DialOption = "dialOptions \<Rightarrow> dialOptions"

definition defaultDialOptions :: dialOptions where
  "defaultDialOptions =
     \<lparr>Dialer = None, TransportCredentials = None, unaryInt = None,
      chainUnaryInts = [], callOptions = []\<rparr>"

definition insecure_NewCredentials :: credentials where
  "insecure_NewCredentials = Insecure"

definition WithTransportCredentials :: "credentials \<Rightarrow> DialOption" where
  "WithTransportCredentials c = (\<lambda>d. d\<lparr>TransportCredentials := Some c\<rparr>)"

definition WithContextDialer :: "dialer \<Rightarrow> DialOption" where
  "WithContextDialer f = (\<lambda>d. d\<lparr>Dialer := Some f\<rparr>)"

definition WithUnaryInterceptor :: "nat \<Rightarrow> DialOption" where
  "WithUnaryInterceptor f = (\<lambda>d. d\<lparr>unaryInt := Some f\<rparr>)"

definition WithChainUnaryInterceptor :: "nat list \<Rightarrow> DialOption" where
  "WithChainUnaryInterceptor fs = (\<lambda>d. d\<lparr>chainUnaryInts := chainUnaryInts d @ fs\<rparr>)"

definition WithDefaultCallOptions :: "nat list \<Rightarrow> DialOption" where
  "WithDefaultCallOptions cos = (\<lambda>d. d\<lparr>callOptions := callOptions d @ cos\<rparr>)"

text \<open>The options are applied one after the other, in the order of the list.\<close>

fun applyOptions :: "DialOption list \<Rightarrow> dialOptions \<Rightarrow> dialOptions" where
  "applyOptions [] d = d"
| "applyOptions (opt # opts) d = applyOptions opts (opt d)"

subsection \<open>The connection object\<close>

datatype State = Idle | Connecting | Ready | TransientFailure | Shutdown

record ClientConn =
  target :: string
  dopts :: dialOptions
  exitedIdle :: bool
  closed :: bool

text \<open>
  \<open>grpc.NewClient(target, opts...)\<close> applies the options to the defaults, validates the
  target and the options (the validation of the runtime is the parameter \<open>validate\<close>) and
  returns an idle connection without any I/O. \<open>Connect\<close> makes the connection leave the
  idle state; it does not wait.
\<close>

definition grpc_NewClient ::
  "(string \<Rightarrow> dialOptions \<Rightarrow> error option) \<Rightarrow> string \<Rightarrow> DialOption list \<Rightarrow> error + ClientConn"
where
  "grpc_NewClient validate tgt opts =
     (let d = applyOptions opts defaultDialOptions in
      case validate tgt d of
        Some e \<Rightarrow> Inl e
      | None \<Rightarrow> Inr \<lparr>target = tgt, dopts = d, exitedIdle = False, closed = False\<rparr>)"

definition Connect :: "ClientConn \<Rightarrow> ClientConn" where
  "Connect cc = cc\<lparr>exitedIdle := True\<rparr>"

subsection \<open>Time and contexts\<close>

text \<open>
  Time is a number of nanoseconds. A \<open>context.Context\<close> is known by the two things that
  can end it: its deadline (the earliest one of its ancestors' and its own) and the time
  at which a cancel function of one of its ancestors is called; either may be missing.
\<close>

type_synonym time = nat

definition Second :: time where
  "Second = 1000000000"

record Context =
  deadline :: "time option"
  cancelAt :: "time option"

definition Background :: Context where
  "Background = \<lparr>deadline = None, cancelAt = None\<rparr>"

text \<open>
  \<open>context.WithTimeout(parent, d)\<close>, called at time \<open>now\<close>, is
  \<open>WithDeadline(parent, now + d)\<close>: the parent's deadline stays if it is the earlier one.
  The cancel function it returns is only called by the \<open>defer\<close>, when
  \<open>ClientConnContext\<close> returns.
\<close>

definition WithTimeout :: "Context \<Rightarrow> time \<Rightarrow> time \<Rightarrow> Context" where
  "WithTimeout parent now d =
     parent\<lparr>deadline :=
       Some (case deadline parent of
               None \<Rightarrow> now + d
             | Some p \<Rightarrow> if p < now + d then p else now + d)\<rparr>"

text \<open>The time at which \<open>ctx.Done()\<close> is closed, if ever.\<close>

definition doneAt :: "Context \<Rightarrow> time option" where
  "doneAt ctx =
     (case (deadline ctx, cancelAt ctx) of
        (None, None) \<Rightarrow> None
      | (Some d, None) \<Rightarrow> Some d
      | (None, Some c) \<Rightarrow> Some c
      | (Some d, Some c) \<Rightarrow> Some (if c < d then c else d))"

text \<open>
  \<open>ctx.Err()\<close> at time \<open>t\<close>: \<open>nil\<close> while \<open>Done\<close> is open, then \<open>Canceled\<close> if the context
  was cancelled and \<open>DeadlineExceeded\<close> if its deadline passed, whichever came first.
\<close>

definition ctx_Err :: "Context \<Rightarrow> time \<Rightarrow> error option" where
  "ctx_Err ctx t =
     (case doneAt ctx of
        None \<Rightarrow> None
      | Some d \<Rightarrow>
          if t < d then None
          else if deadline ctx = Some d then Some DeadlineExceeded
          else Some Canceled)"

subsection \<open>The connectivity state of a connection\<close>

text \<open>
  The runtime owns the state machine of the connection. What it does in one run is the
  list of the state changes it makes, each with its time, in order of time: \<open>changes\<close>.
  \<open>tie\<close> is the choice of the \<open>select\<close> in \<open>WaitForStateChange\<close> when the state changes
  at the very instant the context ends.
\<close>

record env =
  validate :: "string \<Rightarrow> dialOptions \<Rightarrow> error option"
  changes :: "(time \<times> State) list"
  tie :: bool

text \<open>\<open>conn.GetState()\<close> at time \<open>t\<close>: the state of the latest change so far, \<open>Idle\<close> before.\<close>

definition GetState :: "env \<Rightarrow> time \<Rightarrow> State" where
  "GetState e t = last (Idle # map snd (filter (\<lambda>(u, s). u \<le> t) (changes e)))"

text \<open>
  \<open>conn.WaitForStateChange(ctx, sourceState)\<close> called at time \<open>now\<close>:
  \<^verbatim>\<open>
  ch := cc.csMgr.getNotifyChan()
  if cc.csMgr.getState() != sourceState { return true }
  select {
  case <-ctx.Done(): return false
  case <-ch:         return true
  }
  \<close>
  The result is the value returned and the time of the return; \<open>None\<close> if the call never
  returns (no change ever, and a context that never ends).
\<close>

definition WaitForStateChange :: "env \<Rightarrow> Context \<Rightarrow> State \<Rightarrow> time \<Rightarrow> (bool \<times> time) option" where
  "WaitForStateChange e ctx sourceState now =
     (if GetState e now \<noteq> sourceState then Some (True, now)
      else
        case (find (\<lambda>(u, s). now < u \<and> s \<noteq> sourceState) (changes e), doneAt ctx) of
          (None, None) \<Rightarrow> None
        | (Some (u, s), None) \<Rightarrow> Some (True, u)
        | (None, Some d) \<Rightarrow> Some (False, max now d)
        | (Some (u, s), Some d) \<Rightarrow>
            if d \<le> now then Some (False, now)
            else if u < d then Some (True, u)
            else if d < u then Some (False, d)
            else Some (tie e, d))"

subsection \<open>\<open>ClientConn\<close> and \<open>ClientConnContext\<close>\<close>

text \<open>
  What a call leaves behind: the two values it returns, the time of the return, and the
  connection objects it has allocated, as they are at the return.
\<close>

record outcome =
  conn :: "ClientConn option"
  err :: "error option"
  at :: time
  objects :: "ClientConn list"

text \<open>
  \<^verbatim>\<open>
  for {
      state := conn.GetState()
      if state == connectivity.Ready { return conn, nil }
      if !conn.WaitForStateChange(connCtx, state) { return nil, connCtx.Err() }
  }
  \<close>
  \<open>None\<close> is a loop that never returns.
\<close>

function readiness_loop :: "env \<Rightarrow> Context \<Rightarrow> ClientConn \<Rightarrow> time \<Rightarrow> outcome option" where
  "readiness_loop e connCtx cc now =
     (let state = GetState e now in
      if state = Ready then Some \<lparr>conn = Some cc, err = None, at = now, objects = [cc]\<rparr>
      else
        case WaitForStateChange e connCtx state now of
          None \<Rightarrow> None
        | Some (changed, t) \<Rightarrow>
            if \<not> changed
            then Some \<lparr>conn = None, err = ctx_Err connCtx t, at = t, objects = [cc]\<rparr>
            else readiness_loop e connCtx cc t)"
  by pat_completeness auto

text \<open>
  The option list of \<open>ClientConnContext\<close>:
  \<^verbatim>\<open>
  opts = append([]grpc.DialOption{
      grpc.WithTransportCredentials(insecure.NewCredentials()),
  }, opts...)
  opts = append(opts, grpc.WithContextDialer(func(context.Context, string) (net.Conn, error) {
      return s.listener.Dial()
  }))
  \<close>
\<close>

definition ClientConnContext_opts :: "DialOption list \<Rightarrow> DialOption list" where
  "ClientConnContext_opts opts =
     (let opts = [WithTransportCredentials insecure_NewCredentials] @ opts
      in opts @ [WithContextDialer ListenerDial])"

text \<open>
  \<^verbatim>\<open>
  conn, err := grpc.NewClient("passthrough:///test", opts...)
  if err != nil { return nil, err }
  conn.Connect()
  connCtx, cancel := context.WithTimeout(ctx, 5*time.Second)
  defer cancel()
  for { ... }
  \<close>
  \<open>NewClient\<close> and \<open>Connect\<close> do not block: the timeout starts at the time \<open>now\<close> of the
  call.
\<close>

definition ClientConnContext :: "env \<Rightarrow> Context \<Rightarrow> DialOption list \<Rightarrow> time \<Rightarrow> outcome option" where
  "ClientConnContext e ctx opts now =
     (case grpc_NewClient (validate e) ''passthrough:///test'' (ClientConnContext_opts opts) of
        Inl er \<Rightarrow> Some \<lparr>conn = None, err = Some er, at = now, objects = []\<rparr>
      | Inr cc \<Rightarrow> readiness_loop e (WithTimeout ctx now (5 * Second)) (Connect cc) now)"

text \<open>
  \<^verbatim>\<open>
  func (s *Server) ClientConn(opts ...grpc.DialOption) (*grpc.ClientConn, error) {
      return s.ClientConnContext(context.Background(), opts...)
  }
  \<close>
\<close>

definition ClientConn :: "env \<Rightarrow> DialOption list \<Rightarrow> time \<Rightarrow> outcome option" where
  "ClientConn e opts now = ClientConnContext e Background opts now"

text \<open>
  The specification of \<open>ClientConn\<close>, in its own words: the call behaves as
  \<open>ClientConnContext\<close> does for a context that has no deadline and is never cancelled.
\<close>

definition ClientConn_spec :: "env \<Rightarrow> DialOption list \<Rightarrow> time \<Rightarrow> outcome option" where
  "ClientConn_spec e opts now =
     ClientConnContext e \<lparr>deadline = None, cancelAt = None\<rparr> opts now"

subsection \<open>Two runs of the runtime\<close>

text \<open>
  In the first the connection becomes ready after 20 ns; in the second the first
  attempt fails and nothing follows. \<open>conn0\<close> is a connection that has left the idle state.
\<close>

definition env_ready :: env where
  "env_ready = \<lparr>validate = (\<lambda>t d. None), changes = [(10, Connecting), (20, Ready)], tie = False\<rparr>"

definition env_failing :: env where
  "env_failing =
     \<lparr>validate = (\<lambda>t d. None), changes = [(10, Connecting), (20, TransientFailure)], tie = False\<rparr>"

definition conn0 :: ClientConn where
  "conn0 = \<lparr>target = ''passthrough:///test'', dopts = defaultDialOptions,
             exitedIdle = True, closed = False\<rparr>"

section \<open>Properties of the server lifecycle\<close>

text \<open>
  The invariant of a run. There is no goroutine before the first \<open>Serve\<close> and exactly
  one afterwards, and the place of that goroutine fixes the completion signal, the
  results of \<open>s.Server.Serve\<close> recorded so far, and the registration of the listener.
\<close>

fun pc_ok :: "pc \<Rightarrow> state \<Rightarrow> bool" where
  "pc_ok AtServe st =
     (\<not> serveDone (srv st) \<and> returned (trace st) = [] \<and> \<not> lis (Server (srv st)))"
| "pc_ok InServe st =
     (\<not> serveDone (srv st) \<and> returned (trace st) = [] \<and>
      (lis (Server (srv st)) \<or> doneClosed (listener (srv st))))"
| "pc_ok AtClose st =
     (\<not> serveDone (srv st) \<and> returned (trace st) = [serveErr (srv st)] \<and>
      (serveErr (srv st) = None \<longrightarrow> quit (Server (srv st))))"
| "pc_ok Exited st =
     (serveDone (srv st) \<and> returned (trace st) = [serveErr (srv st)] \<and>
      (serveErr (srv st) = None \<longrightarrow> quit (Server (srv st))))"
| "pc_ok Crashed st = False"

definition invar :: "state \<Rightarrow> bool" where
  "invar st =
     (count_list (trace st) SignalFired = (if serveDone (srv st) then 1 else 0) \<and>
      (case goroutines st of
        [] \<Rightarrow> \<not> once (srv st) \<and> \<not> serveDone (srv st) \<and> returned (trace st) = [] \<and>
              count_list (trace st) Spawned = 0 \<and> \<not> lis (Server (srv st))
      | [p] \<Rightarrow> once (srv st) \<and> count_list (trace st) Spawned = 1 \<and> pc_ok p st
      | _ \<Rightarrow> False))"

lemma returned_append: "returned (es @ fs) = returned es @ returned fs"
  by (induction es rule: returned.induct) auto

lemma count_list_snoc: "count_list (es @ [e]) x = count_list es x + (if e = x then 1 else 0)"
  by (induction es) auto

lemma invar_init: "invar (init b opts)"
  by (simp add: invar_def init_def NewServer_def grpc_NewServer_def)

lemma invar_Serve: "invar st \<Longrightarrow> invar (Serve st)"
  by (auto simp: invar_def Serve_def returned_append count_list_snoc split: list.splits)

lemma invar_Stop: "invar st \<Longrightarrow> invar (Stop st)"
  apply (cases "goroutines st")
   apply (simp add: invar_def Stop_def Let_def returned_append count_list_snoc Listener_Close_def)
  subgoal for p ps
    apply (cases ps; cases p)
    apply (auto simp: invar_def Stop_def Let_def returned_append count_list_snoc Listener_Close_def)
    done
  done

lemma invar_listener_Close: "invar st \<Longrightarrow> invar (listener_Close st)"
  apply (cases "goroutines st")
   apply (simp add: invar_def listener_Close_def Let_def returned_append count_list_snoc Listener_Close_def)
  subgoal for p ps
    apply (cases ps; cases p)
    apply (auto simp: invar_def listener_Close_def Let_def returned_append count_list_snoc Listener_Close_def)
    done
  done

lemma invar_goroutine_step: "invar st \<Longrightarrow> invar (goroutine_step i st)"
  apply (cases "goroutines st")
   apply (simp add: invar_def goroutine_step_def)
  subgoal for p ps
    apply (cases ps; cases i; cases p)
    apply (auto simp: invar_def goroutine_step_def serve_return_def Let_def returned_append count_list_snoc Listener_Close_def)
    done
  done

lemma invar_serve_fault: "invar st \<Longrightarrow> invar (serve_fault i e st)"
  apply (cases "goroutines st")
   apply (simp add: invar_def serve_fault_def)
  subgoal for p ps
    apply (cases ps; cases i; cases p)
    apply (auto simp: invar_def serve_fault_def serve_return_def Let_def returned_append count_list_snoc Listener_Close_def)
    done
  done

lemma invar_step: "invar st \<Longrightarrow> invar (step ev st)"
  by (cases ev) (simp_all add: invar_Serve invar_Stop invar_listener_Close invar_goroutine_step invar_serve_fault)

lemma invar_run: "invar st \<Longrightarrow> invar (run evs st)"
  by (induction evs arbitrary: st) (simp_all add: invar_step)


lemma once_step: "once (srv st) \<Longrightarrow> once (srv (step ev st))"
  by (cases ev)
     (auto simp: Serve_def Stop_def listener_Close_def goroutine_step_def serve_fault_def
        serve_return_def Let_def split: pc.splits)

lemma once_run: "once (srv st) \<Longrightarrow> once (srv (run evs st))"
  by (induction evs arbitrary: st) (simp_all add: once_step)

lemma once_CallServe: "once (srv (step CallServe st))"
  by (simp add: Serve_def)

lemma once_after_Serve: "CallServe \<in> set evs \<Longrightarrow> once (srv (run evs st))"
proof (induction evs arbitrary: st)
  case Nil
  then show ?case by simp
next
  case (Cons ev evs)
  show ?case
  proof (cases "ev = CallServe")
    case True
    then show ?thesis using once_run [OF once_CallServe] by simp
  next
    case False
    with Cons show ?thesis by simp
  qed
qed

lemma once_other_step: "CallServe \<noteq> ev \<Longrightarrow> once (srv (step ev st)) = once (srv st)"
  by (cases ev)
     (auto simp: Stop_def listener_Close_def goroutine_step_def serve_fault_def
        serve_return_def Let_def split: pc.splits)

lemma once_without_Serve: "CallServe \<notin> set evs \<Longrightarrow> once (srv (run evs st)) = once (srv st)"
  by (induction evs arbitrary: st) (simp_all add: once_other_step)

lemma invar_once: "invar st \<Longrightarrow> once (srv st) \<Longrightarrow>
   length (goroutines st) = 1 \<and> count_list (trace st) Spawned = 1"
  by (auto simp: invar_def split: list.splits)

lemma invar_not_once: "invar st \<Longrightarrow> \<not> once (srv st) \<Longrightarrow> \<not> serveDone (srv st) \<and> goroutines st = []"
  by (auto simp: invar_def split: list.splits)

lemma invar_serveDone: "invar st \<Longrightarrow> serveDone (srv st) \<Longrightarrow>
    goroutines st = [Exited] \<and> returned (trace st) = [serveErr (srv st)] \<and> once (srv st)"
  apply (auto simp: invar_def split: list.splits)
  subgoal for p by (cases p) auto
  subgoal for p by (cases p) auto
  done

lemma Err_stable_step:
  assumes "invar st" "Err st = Returns e"
  shows "Err (step ev st) = Returns e"
proof -
  from assms have d: "serveDone (srv st)" and e: "serveErr (srv st) = e"
    by (auto simp: Err_def split: if_splits)
  from invar_serveDone [OF assms(1) d] have g: "goroutines st = [Exited]" and o: "once (srv st)"
    by simp_all
  show ?thesis
    using d e g o
    by (cases ev)
       (auto simp: Err_def Serve_def Stop_def listener_Close_def goroutine_step_def
          serve_fault_def Let_def nth_Cons split: nat.splits)
qed

lemma Err_stable_run: "invar st \<Longrightarrow> Err st = Returns e \<Longrightarrow> Err (run evs st) = Returns e"
  by (induction evs arbitrary: st) (simp_all add: Err_stable_step invar_step)

text \<open>
  Claim C1: however many calls of \<open>Serve\<close> (at least one) a run contains, from whatever
  goroutines and interleaved with whatever else, the background task has been spawned
  exactly once, and one more call of \<open>Serve\<close> changes nothing.
\<close>

theorem Serve_spawns_once:
  assumes "1 \<le> count_list evs CallServe"
  shows "length (goroutines (run evs (init b opts))) = 1 \<and>
         count_list (trace (run evs (init b opts))) Spawned = 1 \<and>
         Serve (run evs (init b opts)) = run evs (init b opts)"
proof -
  from assms have "CallServe \<in> set evs"
    by (metis count_list_0_iff not_one_le_zero)
  then have o: "once (srv (run evs (init b opts)))"
    by (rule once_after_Serve)
  have i: "invar (run evs (init b opts))"
    by (simp add: invar_run invar_init)
  from invar_once [OF i o] o show ?thesis
    by (simp add: Serve_def)
qed

text \<open>A run of C1 with three calls of \<open>Serve\<close>.\<close>

theorem Serve_spawns_once_witness:
  "1 \<le> count_list [CallServe, CallServe, Sched 0, CallServe] CallServe \<and>
   length (goroutines (run [CallServe, CallServe, Sched 0, CallServe] (init bufferSize_init []))) = 1 \<and>
   count_list (trace (run [CallServe, CallServe, Sched 0, CallServe] (init bufferSize_init [])))
     Spawned = 1 \<and>
   Serve (run [CallServe, CallServe, Sched 0, CallServe] (init bufferSize_init [])) =
     run [CallServe, CallServe, Sched 0, CallServe] (init bufferSize_init [])"
proof -
  have h: "1 \<le> count_list [CallServe, CallServe, Sched 0, CallServe] CallServe"
    by simp
  from Serve_spawns_once [OF h] h show ?thesis
    by blast
qed

text \<open>
  Claim C8: on a server whose \<open>Serve\<close> is never called, \<open>Err\<close> blocks after every run of
  the other operations, \<open>Close\<close> among them: the completion signal never fires.
\<close>

theorem Err_blocks_forever_without_Serve:
  assumes "CallServe \<notin> set evs"
  shows "Err (run evs (init b opts)) = Blocks"
proof -
  have "\<not> once (srv (init b opts))"
    by (simp add: init_def NewServer_def)
  with assms have "\<not> once (srv (run evs (init b opts)))"
    by (simp add: once_without_Serve)
  with invar_not_once [OF invar_run [OF invar_init]] show ?thesis
    by (simp add: Err_def)
qed


text \<open>A run of C8: the server is closed, and the scheduler finds nothing to run.\<close>

theorem Err_blocks_forever_without_Serve_witness:
  "CallServe \<notin> set [CallStop, CallListenerClose, Sched 0, Fault 0 ''reset''] \<and>
   Err (run [CallStop, CallListenerClose, Sched 0, Fault 0 ''reset''] (init bufferSize_init []))
     = Blocks"
proof -
  have h: "CallServe \<notin> set [CallStop, CallListenerClose, Sched 0, Fault 0 ''reset'']"
    by simp
  from Err_blocks_forever_without_Serve [OF h] h show ?thesis
    by blast
qed

lemma invar_signal: "invar st \<Longrightarrow> (SignalFired \<in> set (trace st)) = serveDone (srv st)"
  using count_list_0_iff [of "trace st" SignalFired]
  by (auto simp: invar_def split: if_splits)

lemma invar_nil_quit: "invar st \<Longrightarrow> serveDone (srv st) \<Longrightarrow> serveErr (srv st) = None \<Longrightarrow> quit (Server (srv st))"
  apply (auto simp: invar_def split: list.splits)
  subgoal for p by (cases p) auto
  done

lemma invar_no_crash: "invar st \<Longrightarrow> Crashed \<notin> set (goroutines st)"
  by (auto simp: invar_def split: list.splits)

lemma invar_returned_pc:
  assumes "invar st" "returned (trace st) = [r]"
  shows "serveErr (srv st) = r \<and> (goroutines st = [AtClose] \<and> \<not> serveDone (srv st) \<or>
           goroutines st = [Exited] \<and> serveDone (srv st))"
proof -
  from assms obtain p where g: "goroutines st = [p]"
    by (auto simp: invar_def split: list.splits)
  with assms(1) have "pc_ok p st"
    by (simp add: invar_def)
  with g assms(2) show ?thesis
    by (cases p) auto
qed

lemma signal_after_return:
  assumes "invar st" "returned (trace st) = [r]"
  shows "Err (goroutine_step 0 st) = Returns r"
  using invar_returned_pc [OF assms]
  by (auto simp: Err_def goroutine_step_def Let_def)

lemma serve_after_stop:
  assumes "goroutines st = [AtServe]" "quit (Server (srv st))" "\<not> serveDone (srv st)"
  shows "Err (run [Sched 0, Sched 0] st) = Returns (Some ErrServerStopped)"
  using assms by (simp add: Err_def goroutine_step_def Let_def)

lemma serve_listener_closed:
  assumes "goroutines st = [InServe]" "doneClosed (listener (srv st))" "\<not> serveDone (srv st)"
  shows "Err (run [Sched 0, Sched 0] st) =
           Returns (if quit (Server (srv st)) then None else Some (ErrOther ''closed''))"
  using assms by (simp add: Err_def goroutine_step_def serve_return_def Let_def)

lemma serve_faulted:
  assumes "goroutines st = [InServe]" "\<not> serveDone (srv st)"
  shows "Err (run [Fault 0 x, Sched 0] st) =
           Returns (if quit (Server (srv st)) then None else Some (ErrOther x))"
  using assms by (simp add: Err_def goroutine_step_def serve_fault_def serve_return_def Let_def)

lemma serve_stopped:
  assumes "invar st" "goroutines st = [InServe]"
  shows "Err (run [CallStop, Sched 0, Sched 0] st) = Returns None"
proof -
  from assms have "pc_ok InServe st"
    by (simp add: invar_def)
  with assms(2) show ?thesis
    by (auto simp: Err_def Stop_def goroutine_step_def serve_return_def Listener_Close_def Let_def)
qed

lemma invar_pc_not_done:
  assumes "invar st" "goroutines st = [p]" "p = AtServe \<or> p = InServe"
  shows "\<not> serveDone (srv st)"
  using assms by (auto simp: invar_def)


text \<open>
  Claim C4: \<open>Err\<close> blocks exactly as long as the completion signal has not fired. When
  it returns, \<open>Serve\<close> has been called, the signal has fired once, the value returned is
  the one result of \<open>s.Server.Serve\<close> (\<open>nil\<close> only after a \<open>Stop\<close>), and every later call
  of \<open>Err\<close>, after any further run, returns the same value. Once \<open>s.Server.Serve\<close> has
  returned \<open>r\<close>, the next step of the goroutine fires the signal and \<open>Err\<close> returns \<open>r\<close>.
  That result is \<open>ErrServerStopped\<close> when the server was stopped before the goroutine
  called \<open>s.Server.Serve\<close>; for a goroutine in the accept loop it is \<open>nil\<close> after a
  \<open>Stop\<close>, and without one the error "closed" of a closed listener or the fault that
  ended the loop.
\<close>

theorem Err_returns_captured_error:
  assumes "st = run evs (init b opts)"
  shows "(Err st = Blocks \<longleftrightarrow> SignalFired \<notin> set (trace st)) \<and>
         (\<forall>e. Err st = Returns e \<longrightarrow>
               CallServe \<in> set evs \<and>
               returned (trace st) = [e] \<and>
               count_list (trace st) SignalFired = 1 \<and>
               (e = None \<longrightarrow> quit (Server (srv st))) \<and>
               (\<forall>evs'. Err (run evs' st) = Returns e)) \<and>
         (\<forall>r. returned (trace st) = [r] \<longrightarrow> Err (run [Sched 0] st) = Returns r) \<and>
         (goroutines st = [AtServe] \<and> quit (Server (srv st)) \<longrightarrow>
            Err (run [Sched 0, Sched 0] st) = Returns (Some ErrServerStopped)) \<and>
         (goroutines st = [InServe] \<longrightarrow>
            Err (run [CallStop, Sched 0, Sched 0] st) = Returns None \<and>
            (doneClosed (listener (srv st)) \<longrightarrow>
               Err (run [Sched 0, Sched 0] st) =
                 Returns (if quit (Server (srv st)) then None else Some (ErrOther ''closed''))) \<and>
            (\<forall>x. Err (run [Fault 0 x, Sched 0] st) =
                 Returns (if quit (Server (srv st)) then None else Some (ErrOther x))))"
proof -
  have i: "invar st"
    using assms by (simp add: invar_run invar_init)
  have blocks: "Err st = Blocks \<longleftrightarrow> SignalFired \<notin> set (trace st)"
    using invar_signal [OF i] by (simp add: Err_def)
  have returns: "CallServe \<in> set evs \<and> returned (trace st) = [e] \<and>
      count_list (trace st) SignalFired = 1 \<and> (e = None \<longrightarrow> quit (Server (srv st))) \<and>
      (\<forall>evs'. Err (run evs' st) = Returns e)"
    if r: "Err st = Returns e" for e
  proof -
    from r have d: "serveDone (srv st)" and e: "serveErr (srv st) = e"
      by (auto simp: Err_def split: if_splits)
    have "CallServe \<in> set evs"
    proof (rule ccontr)
      assume "CallServe \<notin> set evs"
      then have "\<not> once (srv st)"
        using assms by (simp add: once_without_Serve init_def NewServer_def)
      with invar_not_once [OF i] d show False by simp
    qed
    moreover have "returned (trace st) = [e]"
      using invar_serveDone [OF i d] e by simp
    moreover have "count_list (trace st) SignalFired = 1"
      using i d by (simp add: invar_def)
    moreover have "e = None \<longrightarrow> quit (Server (srv st))"
      using invar_nil_quit [OF i d] e by simp
    moreover have "\<forall>evs'. Err (run evs' st) = Returns e"
      using Err_stable_run [OF i r] by simp
    ultimately show ?thesis by simp
  qed
  have fires: "Err (run [Sched 0] st) = Returns r" if "returned (trace st) = [r]" for r
    using signal_after_return [OF i that] by simp
  have stopped_first: "Err (run [Sched 0, Sched 0] st) = Returns (Some ErrServerStopped)"
    if "goroutines st = [AtServe] \<and> quit (Server (srv st))"
  proof -
    from that invar_pc_not_done [OF i, of AtServe] have "\<not> serveDone (srv st)"
      by simp
    with that serve_after_stop [of st] show ?thesis
      by blast
  qed
  have serving: "Err (run [CallStop, Sched 0, Sched 0] st) = Returns None \<and>
      (doneClosed (listener (srv st)) \<longrightarrow>
         Err (run [Sched 0, Sched 0] st) =
           Returns (if quit (Server (srv st)) then None else Some (ErrOther ''closed''))) \<and>
      (\<forall>x. Err (run [Fault 0 x, Sched 0] st) =
           Returns (if quit (Server (srv st)) then None else Some (ErrOther x)))"
    if g: "goroutines st = [InServe]"
  proof -
    from invar_pc_not_done [OF i g] have n: "\<not> serveDone (srv st)"
      by simp
    from serve_stopped [OF i g] serve_listener_closed [OF g _ n] serve_faulted [OF g n]
    show ?thesis by blast
  qed
  from blocks returns fires stopped_first serving show ?thesis
    by blast
qed

text \<open>
  Runs of C4: the server starts, serves and is closed, and \<open>Err\<close> returns \<open>nil\<close>, still
  after more calls; \<open>Serve\<close> after \<open>Close\<close> gives \<open>ErrServerStopped\<close>; a listener closed
  under a serving goroutine gives "closed"; a fault of the accept loop gives that fault,
  and \<open>Err\<close> blocks until the goroutine has closed the channel.
\<close>

lemmas lifecycle_defs = init_def NewServer_def Serve_def Stop_def listener_Close_def Err_def
  goroutine_step_def serve_fault_def serve_return_def Let_def grpc_NewServer_def
  bufconn_Listen_def Listener_Close_def

theorem Err_returns_captured_error_witness:
  "Err (run [CallServe, Sched 0, CallStop, CallListenerClose, Sched 0, Sched 0] (init bufferSize_init []))
     = Returns None \<and>
   returned (trace (run [CallServe, Sched 0, CallStop, CallListenerClose, Sched 0, Sched 0]
     (init bufferSize_init []))) = [None] \<and>
   Err (run [CallServe, CallStop, Sched 0]
     (run [CallServe, Sched 0, CallStop, CallListenerClose, Sched 0, Sched 0] (init bufferSize_init [])))
     = Returns None \<and>
   Err (run [Sched 0, Sched 0] (run [CallStop, CallListenerClose, CallServe] (init bufferSize_init [])))
     = Returns (Some ErrServerStopped) \<and>
   Err (run [Sched 0, Sched 0] (run [CallServe, Sched 0, CallListenerClose] (init bufferSize_init [])))
     = Returns (Some (ErrOther ''closed'')) \<and>
   Err (run [Fault 0 ''reset'', Sched 0] (run [CallServe, Sched 0] (init bufferSize_init [])))
     = Returns (Some (ErrOther ''reset'')) \<and>
   Err (run [CallStop, Sched 0, Sched 0] (run [CallServe, Sched 0] (init bufferSize_init [])))
     = Returns None \<and>
   Err (run [CallServe, Sched 0, Fault 0 ''reset''] (init bufferSize_init [])) = Blocks \<and>
   Err (run [Sched 0] (run [CallServe, Sched 0, Fault 0 ''reset''] (init bufferSize_init [])))
     = Returns (Some (ErrOther ''reset''))"
proof -
  let ?i = "init bufferSize_init []"
  let ?evs = "[CallServe, Sched 0, CallStop, CallListenerClose, Sched 0, Sched 0]"
  let ?st = "run ?evs ?i"
  have r: "Err ?st = Returns None"
    by (simp add: lifecycle_defs)
  from Err_returns_captured_error [OF refl, of ?evs bufferSize_init "[]"] r
  have "returned (trace ?st) = [None] \<and> (\<forall>evs'. Err (run evs' ?st) = Returns None)"
    by blast
  then have nil: "returned (trace ?st) = [None] \<and>
      Err (run [CallServe, CallStop, Sched 0] ?st) = Returns None"
    by blast
  have "goroutines (run [CallStop, CallListenerClose, CallServe] ?i) = [AtServe] \<and>
      quit (Server (srv (run [CallStop, CallListenerClose, CallServe] ?i)))"
    by (simp add: lifecycle_defs)
  with Err_returns_captured_error [OF refl, of "[CallStop, CallListenerClose, CallServe]" bufferSize_init "[]"]
  have late: "Err (run [Sched 0, Sched 0] (run [CallStop, CallListenerClose, CallServe] ?i))
      = Returns (Some ErrServerStopped)"
    by blast
  have "goroutines (run [CallServe, Sched 0, CallListenerClose] ?i) = [InServe] \<and>
      doneClosed (listener (srv (run [CallServe, Sched 0, CallListenerClose] ?i))) \<and>
      \<not> quit (Server (srv (run [CallServe, Sched 0, CallListenerClose] ?i)))"
    by (simp add: lifecycle_defs)
  with Err_returns_captured_error [OF refl, of "[CallServe, Sched 0, CallListenerClose]" bufferSize_init "[]"]
  have closed: "Err (run [Sched 0, Sched 0] (run [CallServe, Sched 0, CallListenerClose] ?i))
      = Returns (Some (ErrOther ''closed''))"
    by simp
  have "goroutines (run [CallServe, Sched 0] ?i) = [InServe] \<and>
      \<not> quit (Server (srv (run [CallServe, Sched 0] ?i)))"
    by (simp add: lifecycle_defs)
  with Err_returns_captured_error [OF refl, of "[CallServe, Sched 0]" bufferSize_init "[]"]
  have serving: "Err (run [Fault 0 ''reset'', Sched 0] (run [CallServe, Sched 0] ?i))
        = Returns (Some (ErrOther ''reset'')) \<and>
      Err (run [CallStop, Sched 0, Sched 0] (run [CallServe, Sched 0] ?i)) = Returns None"
    by simp
  have "returned (trace (run [CallServe, Sched 0, Fault 0 ''reset''] ?i)) = [Some (ErrOther ''reset'')] \<and>
      SignalFired \<notin> set (trace (run [CallServe, Sched 0, Fault 0 ''reset''] ?i))"
    by (simp add: lifecycle_defs)
  with Err_returns_captured_error [OF refl, of "[CallServe, Sched 0, Fault 0 ''reset'']" bufferSize_init "[]"]
  have fired: "Err (run [CallServe, Sched 0, Fault 0 ''reset''] ?i) = Blocks \<and>
      Err (run [Sched 0] (run [CallServe, Sched 0, Fault 0 ''reset''] ?i))
        = Returns (Some (ErrOther ''reset''))"
    by blast
  from r nil late closed serving fired show ?thesis
    by blast
qed

lemma Stop_unblocks:
  assumes "invar st" "once (srv st)"
  shows "Err (goroutine_step 0 (goroutine_step 0 (Stop st))) \<noteq> Blocks"
proof -
  from assms obtain p where g: "goroutines st = [p]"
    by (auto simp: invar_def split: list.splits)
  with assms(1) have "pc_ok p st"
    by (simp add: invar_def)
  with g show ?thesis
    by (cases p)
       (auto simp: Err_def Stop_def goroutine_step_def serve_return_def Listener_Close_def Let_def)
qed

lemma Close_unblocks:
  assumes "invar st" "once (srv st)"
  shows "Err (goroutine_step 0 (goroutine_step 0 (Close st))) \<noteq> Blocks"
proof -
  from assms obtain p where g: "goroutines st = [p]"
    by (auto simp: invar_def split: list.splits)
  with assms(1) have "pc_ok p st"
    by (simp add: invar_def)
  with g show ?thesis
    by (cases p)
       (auto simp: Err_def Close_def Stop_def listener_Close_def goroutine_step_def serve_return_def
          Listener_Close_def Let_def)
qed

text \<open>
  Claim C7: \<open>Close\<close> first stops the server and then closes the listener, in this order.
  It returns without a panic in every state. On a server that never served there is
  no goroutine, before or after; on one that served, the \<open>Stop\<close> alone lets the goroutine
  run to its end, which fires the signal that \<open>Err\<close> waits for.
\<close>

theorem Close_stops_then_closes_listener:
  assumes "st = run evs (init b opts)"
  shows "Close st = listener_Close (Stop st) \<and>
         trace (Close st) = trace st @ [Stopped, ListenerClosed] \<and>
         quit (Server (srv (Close st))) \<and>
         doneClosed (listener (srv (Close st))) \<and>
         Crashed \<notin> set (goroutines (Close st)) \<and>
         (CallServe \<notin> set evs \<longrightarrow> goroutines (Close st) = [] \<and> Err (Close st) = Blocks) \<and>
         (CallServe \<in> set evs \<longrightarrow>
            Err (run [Sched 0, Sched 0] (Stop st)) \<noteq> Blocks \<and>
            Err (run [Sched 0, Sched 0] (Close st)) \<noteq> Blocks)"
proof -
  have i: "invar st"
    using assms by (simp add: invar_run invar_init)
  have ic: "invar (Close st)"
    using i by (simp add: Close_def invar_Stop invar_listener_Close)
  have "trace (Close st) = trace st @ [Stopped, ListenerClosed]"
    by (simp add: Close_def Stop_def listener_Close_def Let_def)
  moreover have "quit (Server (srv (Close st)))" "doneClosed (listener (srv (Close st)))"
    by (simp_all add: Close_def Stop_def listener_Close_def Listener_Close_def Let_def)
  moreover have "Crashed \<notin> set (goroutines (Close st))"
    using ic by (rule invar_no_crash)
  moreover have "goroutines (Close st) = [] \<and> Err (Close st) = Blocks" if "CallServe \<notin> set evs"
  proof -
    from that have "\<not> once (srv st)"
      using assms by (simp add: once_without_Serve init_def NewServer_def)
    with invar_not_once [OF i] show ?thesis
      by (simp add: Close_def Stop_def listener_Close_def Err_def Let_def)
  qed
  moreover have "Err (run [Sched 0, Sched 0] (Stop st)) \<noteq> Blocks \<and>
                 Err (run [Sched 0, Sched 0] (Close st)) \<noteq> Blocks" if "CallServe \<in> set evs"
  proof -
    from that have "once (srv st)"
      using assms by (simp add: once_after_Serve)
    with Stop_unblocks [OF i] Close_unblocks [OF i] show ?thesis
      by simp
  qed
  ultimately show ?thesis
    by (simp add: Close_def)
qed

text \<open>Two runs of C7: \<open>Close\<close> on a fresh server, and on one that is serving.\<close>

theorem Close_stops_then_closes_listener_witness:
  "goroutines (Close (init bufferSize_init [])) = [] \<and>
   trace (Close (init bufferSize_init [])) = [Stopped, ListenerClosed] \<and>
   Err (Close (init bufferSize_init [])) = Blocks \<and>
   Err (run [Sched 0, Sched 0] (Close (run [CallServe, Sched 0] (init bufferSize_init []))))
     \<noteq> Blocks"
proof -
  have fresh: "init bufferSize_init [] = run [] (init bufferSize_init [])"
    by simp
  have never: "CallServe \<notin> set []"
    by simp
  have served: "CallServe \<in> set [CallServe, Sched 0]"
    by simp
  have empty: "trace (init bufferSize_init []) = []"
    by (simp add: init_def)
  from Close_stops_then_closes_listener [OF fresh] never
  have "goroutines (Close (init bufferSize_init [])) = [] \<and>
        trace (Close (init bufferSize_init [])) =
          trace (init bufferSize_init []) @ [Stopped, ListenerClosed] \<and>
        Err (Close (init bufferSize_init [])) = Blocks"
    by blast
  with empty
  have "goroutines (Close (init bufferSize_init [])) = [] \<and>
        trace (Close (init bufferSize_init [])) = [Stopped, ListenerClosed] \<and>
        Err (Close (init bufferSize_init [])) = Blocks"
    by simp
  moreover from Close_stops_then_closes_listener [OF refl, of "[CallServe, Sched 0]"] served
  have "Err (run [Sched 0, Sched 0] (Close (run [CallServe, Sched 0] (init bufferSize_init []))))
          \<noteq> Blocks"
    by blast
  ultimately show ?thesis
    by blast
qed

section \<open>Properties of the configuration surface\<close>

text \<open>A call with a size that is not positive panics and leaves the default as it was.\<close>

lemma SetBufferSize_nonpositive:
  "sint n \<le> 0 \<Longrightarrow> SetBufferSize n b = (Some ''grpctest: buffer size must be positive'', b)"
  by (simp add: SetBufferSize_def)

text \<open>A size that fits into an \<open>int32\<close> survives the two conversions.\<close>

lemma int32_round_trip:
  fixes n :: go_int
  assumes "- (2 ^ 31) \<le> sint n" "sint n < 2 ^ 31"
  shows "(scast (ucast n :: int32) :: go_int) = n"
proof -
  have down: "(ucast n :: int32) = scast n"
    by (simp add: down_cast_same is_down)
  have "sint (scast n :: int32) = signed_take_bit 31 (sint n)"
    by (simp add: signed_scast_eq)
  also have "\<dots> = sint n"
    using assms by (simp add: signed_take_bit_int_eq_self)
  finally have small: "sint (scast n :: int32) = sint n" .
  have "sint (scast (scast n :: int32) :: go_int) = sint (scast n :: int32)"
    by (simp add: sint_up_scast is_up)
  with small down show ?thesis
    by (simp add: signed_word_eqI)
qed

lemma getBufferSize_in_range:
  assumes "0 < sint n" "sint n < 2 ^ 31"
  shows "SetBufferSize n b = (None, ucast n) \<and> getBufferSize (ucast n) = n"
  using assms int32_round_trip [of n] by (simp add: SetBufferSize_def getBufferSize_def)

lemma getBufferSize_init: "getBufferSize bufferSize_init = 1048576"
  by (simp add: getBufferSize_def bufferSize_init_def)

text \<open>
  Claim C5: for every size greater than 0, \<open>SetBufferSize\<close> does not panic and
  \<open>getBufferSize\<close> then reads that size; for every other size the call panics and the
  default stays. The second half is \<open>SetBufferSize_nonpositive\<close>, and the first half holds
  up to \<open>2^31 - 1\<close> (\<open>getBufferSize_in_range\<close>). It fails from \<open>2^31\<close> on: the size
  \<open>2147483648\<close> is positive, the call does not panic, and the default read back is
  \<open>-2147483648\<close>, a value that the guard of \<open>SetBufferSize\<close> itself rejects.
\<close>

theorem SetBufferSize_truncates:
  "sint (2147483648 :: go_int) = 2147483648 \<and>
   fst (SetBufferSize 2147483648 bufferSize_init) = None \<and>
   sint (getBufferSize (snd (SetBufferSize 2147483648 bufferSize_init))) = - 2147483648"
  by (simp add: SetBufferSize_def getBufferSize_def)

text \<open>No step of a server changes the capacity of its listener.\<close>

lemma step_capacity: "capacity (step ev st) = capacity st"
  by (cases ev)
     (auto simp: capacity_def Serve_def Stop_def listener_Close_def goroutine_step_def
        serve_fault_def serve_return_def Listener_Close_def Let_def split: pc.splits)

lemma exec_servers:
  assumes "exec x w = Inr w'" "i < length (servers w)"
  shows "i < length (servers w') \<and> capacity (servers w' ! i) = capacity (servers w ! i)"
  using assms
  by (cases x)
     (auto simp: nth_append nth_list_update step_capacity
        split: prod.splits option.splits if_splits)

lemma exec_all_servers:
  assumes "exec_all xs w = Inr w'" "i < length (servers w)"
  shows "i < length (servers w') \<and> capacity (servers w' ! i) = capacity (servers w ! i)"
  using assms
proof (induction xs arbitrary: w)
  case Nil
  then show ?case by simp
next
  case (Cons x xs)
  then obtain w1 where x: "exec x w = Inr w1" and xs: "exec_all xs w1 = Inr w'"
    by (auto split: sum.splits)
  from exec_servers [OF x Cons.prems(2)] Cons.IH [OF xs] show ?case
    by simp
qed

text \<open>
  Claim C6: the listener of a server is created by \<open>NewServer\<close>, open, with the default
  buffer size of that moment as its capacity; whatever the process does afterwards
  (\<open>Serve\<close>, \<open>Close\<close>, \<open>SetBufferSize\<close>, more servers), that capacity stays, and so does
  the capacity of every server constructed earlier.
\<close>

theorem listener_capacity_fixed_at_construction:
  assumes "exec_all (OpNewServer opts # ops) w = Inr w'"
  shows "length (servers w) < length (servers w') \<and>
         capacity (servers w' ! length (servers w)) = getBufferSize (bufferSize w) \<and>
         \<not> doneClosed (listener (srv (init (bufferSize w) opts))) \<and>
         (\<forall>i < length (servers w). capacity (servers w' ! i) = capacity (servers w ! i))"
proof -
  let ?w1 = "w\<lparr>servers := servers w @ [init (bufferSize w) opts]\<rparr>"
  from assms have run: "exec_all ops ?w1 = Inr w'"
    by simp
  have new: "length (servers w) < length (servers ?w1)"
    by simp
  from exec_all_servers [OF run new]
  have "length (servers w) < length (servers w')"
    and "capacity (servers w' ! length (servers w)) = getBufferSize (bufferSize w)"
    by (simp_all add: capacity_def init_def NewServer_def bufconn_Listen_def)
  moreover have "\<forall>i < length (servers w). capacity (servers w' ! i) = capacity (servers w ! i)"
    using exec_all_servers [OF run] by (simp add: nth_append)
  ultimately show ?thesis
    by (simp add: init_def NewServer_def bufconn_Listen_def)
qed

text \<open>
  A run of C6: a server is constructed under the initial default of 1 MiB, the default
  is set to 2 MiB, the server starts, and a second server is constructed. The first
  server keeps 1 MiB, the second has 2 MiB.
\<close>

theorem listener_capacity_fixed_at_construction_witness:
  "\<exists>w'. exec_all [OpNewServer [], OpSetBufferSize 2097152, OpServer 0 CallServe, OpNewServer []]
            \<lparr>bufferSize = bufferSize_init, servers = []\<rparr> = Inr w' \<and>
        capacity (servers w' ! 0) = 1048576 \<and> capacity (servers w' ! 1) = 2097152"
proof -
  let ?ops = "[OpSetBufferSize 2097152, OpServer 0 CallServe, OpNewServer []]"
  let ?w = "\<lparr>bufferSize = bufferSize_init, servers = []\<rparr>"
  obtain w' where w': "exec_all (OpNewServer [] # ?ops) ?w = Inr w'"
    by (simp add: SetBufferSize_def)
  from listener_capacity_fixed_at_construction [OF w']
  have "capacity (servers w' ! 0) = 1048576"
    by (simp add: getBufferSize_init)
  moreover from w' have "capacity (servers w' ! 1) = 2097152"
    by (auto simp add: SetBufferSize_def capacity_def init_def NewServer_def
        bufconn_Listen_def getBufferSize_def Serve_def)
  ultimately show ?thesis using w' by auto
qed

section \<open>Properties of client connections\<close>

subsection \<open>The readiness loop returns\<close>

text \<open>
  Every round of the loop that goes on moves to the time of a later state change, and
  the run has finitely many of them.
\<close>

lemma filter_length_less:
  assumes "x \<in> set xs" "Q x" "\<not> P x" "\<And>y. P y \<Longrightarrow> Q y"
  shows "length (filter P xs) < length (filter Q xs)"
proof -
  have "filter P xs = filter P (filter Q xs)"
    using assms(4) by (induction xs) auto
  moreover have "length (filter P (filter Q xs)) < length (filter Q xs)"
    by (rule length_filter_less [of x]) (use assms in auto)
  ultimately show ?thesis by simp
qed

lemma find_SomeD: "find P xs = Some x \<Longrightarrow> P x \<and> x \<in> set xs"
  by (induction xs) (auto split: if_splits)

lemma wait_changed:
  assumes "WaitForStateChange e ctx (GetState e now) now = Some (True, t)"
  shows "now < t \<and> (\<exists>s. (t, s) \<in> set (changes e) \<and> s \<noteq> GetState e now)"
  using assms
  by (auto simp: WaitForStateChange_def split: option.splits if_splits prod.splits
      dest!: find_SomeD)

lemma later_changes_less:
  assumes "now < t" "(t, s) \<in> set chs"
  shows "length (filter (\<lambda>(u, s). t < u) chs) < length (filter (\<lambda>(u, s). now < (u::nat)) chs)"
  by (rule filter_length_less [of "(t, s)"]) (use assms in auto)

termination readiness_loop
proof (relation "measure (\<lambda>(e, connCtx, cc, now). length (filter (\<lambda>(u, s). now < u) (changes e)))", goal_cases)
  case 1
  then show ?case by simp
next
  case (2 e connCtx cc now state x2 changed t)
  then have "WaitForStateChange e connCtx (GetState e now) now = Some (True, t)"
    by simp
  from wait_changed [OF this] show ?case
    by (auto intro: later_changes_less)
qed

declare readiness_loop.simps [simp del]

lemma applyOptions_append: "applyOptions (xs @ ys) d = applyOptions ys (applyOptions xs d)"
  by (induction xs arbitrary: d) simp_all

lemma wait_returns:
  "doneAt ctx = Some d \<Longrightarrow> \<exists>r. WaitForStateChange e ctx src now = Some r"
  by (auto simp: WaitForStateChange_def split: option.splits prod.splits)

lemma wait_true_bound:
  assumes "doneAt ctx = Some d" "WaitForStateChange e ctx (GetState e now) now = Some (True, t)"
  shows "now < t \<and> t \<le> d"
  using assms
  by (auto simp: WaitForStateChange_def split: option.splits if_splits prod.splits
      dest!: find_SomeD)

lemma wait_false_time:
  assumes "doneAt ctx = Some d" "WaitForStateChange e ctx src now = Some (False, t)"
  shows "t = max now d"
  using assms
  by (auto simp: WaitForStateChange_def split: option.splits if_splits prod.splits)

lemma ctx_Err_after:
  assumes "doneAt ctx = Some d" "d \<le> t"
  shows "ctx_Err ctx t = Some DeadlineExceeded \<or> ctx_Err ctx t = Some Canceled"
  using assms by (simp add: ctx_Err_def)

lemma ctx_Err_before:
  assumes "doneAt ctx = Some d" "t < d"
  shows "ctx_Err ctx t = None"
  using assms by (simp add: ctx_Err_def)

lemma doneAt_WithTimeout:
  "doneAt (WithTimeout ctx now d) =
     Some (case doneAt ctx of None \<Rightarrow> now + d | Some p \<Rightarrow> min p (now + d))"
  by (auto simp: doneAt_def WithTimeout_def split: option.splits)

lemma readiness_loop_result:
  assumes "doneAt connCtx = Some d"
  shows "\<exists>r. readiness_loop e connCtx cc now = Some r \<and> objects r = [cc] \<and>
           (conn r = Some cc \<and> err r = None \<and> GetState e (at r) = Ready \<and>
              now \<le> at r \<and> at r \<le> max now d
            \<or> conn r = None \<and> at r = max now d \<and> err r = ctx_Err connCtx (at r) \<and>
              (err r = Some DeadlineExceeded \<or> err r = Some Canceled))"
  using assms
proof (induction e connCtx cc now rule: readiness_loop.induct)
  case (1 e connCtx cc now)
  show ?case
  proof (cases "GetState e now = Ready")
    case True
    then show ?thesis
      by (simp add: readiness_loop.simps [of e connCtx cc now])
  next
    case False
    from wait_returns [OF "1.prems"] obtain changed t
      where w: "WaitForStateChange e connCtx (GetState e now) now = Some (changed, t)"
      by fastforce
    show ?thesis
    proof (cases changed)
      case True
      with w wait_true_bound [OF "1.prems"] have b: "now < t" "t \<le> d"
        by simp_all
      from "1.IH" [OF refl False w refl _ "1.prems"] True
      obtain r where r: "readiness_loop e connCtx cc t = Some r" "objects r = [cc]"
        "conn r = Some cc \<and> err r = None \<and> GetState e (at r) = Ready \<and>
              t \<le> at r \<and> at r \<le> max t d
            \<or> conn r = None \<and> at r = max t d \<and> err r = ctx_Err connCtx (at r) \<and>
              (err r = Some DeadlineExceeded \<or> err r = Some Canceled)"
        by auto
      have "readiness_loop e connCtx cc now = Some r"
        using False w True r(1) by (simp add: readiness_loop.simps [of e connCtx cc now])
      with r b show ?thesis
        by (auto simp: max_def)
    next
      case False
      with w wait_false_time [OF "1.prems"] have t: "t = max now d"
        by simp
      then have "d \<le> t" by simp
      from ctx_Err_after [OF "1.prems" this] t \<open>GetState e now \<noteq> Ready\<close> w False
      show ?thesis
        by (simp add: readiness_loop.simps [of e connCtx cc now])
    qed
  qed
qed


subsection \<open>The options of the connection\<close>

lemma ClientConnContext_opts_apply:
  "applyOptions (ClientConnContext_opts opts) defaultDialOptions =
     (applyOptions opts (WithTransportCredentials insecure_NewCredentials defaultDialOptions))
       \<lparr>Dialer := Some ListenerDial\<rparr>"
  by (simp add: ClientConnContext_opts_def applyOptions_append WithContextDialer_def)

lemma ClientConnContext_objects:
  assumes "ClientConnContext e ctx opts now = Some r" "cc \<in> set (objects r)"
  shows "dopts cc = applyOptions (ClientConnContext_opts opts) defaultDialOptions \<and>
         target cc = ''passthrough:///test'' \<and> exitedIdle cc \<and> \<not> closed cc"
proof (cases "grpc_NewClient (validate e) ''passthrough:///test'' (ClientConnContext_opts opts)")
  case (Inl er)
  with assms show ?thesis
    by (auto simp: ClientConnContext_def)
next
  case (Inr c)
  from doneAt_WithTimeout [of ctx now "5 * Second"]
  obtain d where "doneAt (WithTimeout ctx now (5 * Second)) = Some d"
    by simp
  from readiness_loop_result [OF this, of e "Connect c" now] Inr assms
  have "cc = Connect c"
    by (auto simp: ClientConnContext_def)
  moreover from Inr have "dopts c = applyOptions (ClientConnContext_opts opts) defaultDialOptions"
    "target c = ''passthrough:///test''" "\<not> closed c"
    by (auto simp: grpc_NewClient_def Let_def split: option.splits)
  ultimately show ?thesis
    by (simp add: Connect_def)
qed

text \<open>
  Claim C2: the option list that \<open>ClientConnContext\<close> hands to \<open>grpc.NewClient\<close> is the
  insecure credentials, then the caller's options in their order, then the dialer of
  the in-memory listener. The options of every connection it constructs are therefore
  those that the insecure credentials and the caller's options give, with the dialer
  replaced: the dialer is the in-memory one, never one of the caller's, and every
  other field is as the caller's options left it.
\<close>

theorem in_memory_dialer_always_wins:
  "ClientConnContext_opts opts =
     WithTransportCredentials insecure_NewCredentials # opts @ [WithContextDialer ListenerDial] \<and>
   applyOptions (ClientConnContext_opts opts) defaultDialOptions =
     (applyOptions opts (WithTransportCredentials insecure_NewCredentials defaultDialOptions))
       \<lparr>Dialer := Some ListenerDial\<rparr> \<and>
   (\<forall>r cc. ClientConnContext e ctx opts now = Some r \<and> cc \<in> set (objects r) \<longrightarrow>
      dopts cc =
        (applyOptions opts (WithTransportCredentials insecure_NewCredentials defaultDialOptions))
          \<lparr>Dialer := Some ListenerDial\<rparr> \<and>
      Dialer (dopts cc) = Some ListenerDial \<and>
      (\<forall>n. Dialer (dopts cc) \<noteq> Some (CallerDialer n)))"
proof -
  have "ClientConnContext_opts opts =
      WithTransportCredentials insecure_NewCredentials # opts @ [WithContextDialer ListenerDial]"
    by (simp add: ClientConnContext_opts_def)
  moreover note ClientConnContext_opts_apply [of opts]
  moreover have "dopts cc =
        (applyOptions opts (WithTransportCredentials insecure_NewCredentials defaultDialOptions))
          \<lparr>Dialer := Some ListenerDial\<rparr> \<and>
      Dialer (dopts cc) = Some ListenerDial \<and>
      (\<forall>n. Dialer (dopts cc) \<noteq> Some (CallerDialer n))"
    if "ClientConnContext e ctx opts now = Some r \<and> cc \<in> set (objects r)" for r cc
    using ClientConnContext_objects [of e ctx opts now r cc] that
    by (simp add: ClientConnContext_opts_apply)
  ultimately show ?thesis
    by blast
qed

text \<open>
  A run of C2, with the options of the repository's test of the dialer: a dialer of the
  caller's, credentials, and an interceptor.
\<close>

theorem in_memory_dialer_always_wins_witness:
  "\<exists>r cc. ClientConnContext env_ready Background
       [WithContextDialer (CallerDialer 0), WithTransportCredentials insecure_NewCredentials,
        WithUnaryInterceptor 7] 0 = Some r \<and>
     objects r = [cc] \<and> conn r = Some cc \<and>
     Dialer (dopts cc) = Some ListenerDial \<and> unaryInt (dopts cc) = Some 7"
proof -
  let ?opts = "[WithContextDialer (CallerDialer 0),
     WithTransportCredentials insecure_NewCredentials, WithUnaryInterceptor 7]"
  let ?d = "\<lparr>Dialer = Some ListenerDial, TransportCredentials = Some Insecure,
     unaryInt = Some 7, chainUnaryInts = [], callOptions = []\<rparr>"
  let ?cc = "\<lparr>target = ''passthrough:///test'', dopts = ?d, exitedIdle = True, closed = False\<rparr>"
  let ?r = "\<lparr>conn = Some ?cc, err = None, at = 20, objects = [?cc]\<rparr>"
  have run: "ClientConnContext env_ready Background ?opts 0 = Some ?r"
    by (simp add: ClientConnContext_def grpc_NewClient_def ClientConnContext_opts_def
        WithTransportCredentials_def WithContextDialer_def WithUnaryInterceptor_def
        defaultDialOptions_def insecure_NewCredentials_def Connect_def readiness_loop.simps
        GetState_def WaitForStateChange_def WithTimeout_def Background_def doneAt_def
        Second_def env_ready_def)
  have "?cc \<in> set (objects ?r)"
    by simp
  with in_memory_dialer_always_wins [of ?opts env_ready Background 0] run
  have "Dialer (dopts ?cc) = Some ListenerDial"
    by blast
  with run show ?thesis
    by simp
qed

subsection \<open>The outcome of the readiness loop\<close>

lemmas eval_defs = ClientConnContext_def ClientConn_def ClientConn_spec_def grpc_NewClient_def ClientConnContext_opts_def
  WithTransportCredentials_def WithContextDialer_def WithUnaryInterceptor_def defaultDialOptions_def
  insecure_NewCredentials_def Connect_def readiness_loop.simps GetState_def WaitForStateChange_def
  WithTimeout_def Background_def doneAt_def ctx_Err_def Second_def env_ready_def env_failing_def Let_def












text \<open>
  Claim C10: when \<open>ClientConnContext\<close> has constructed the connection and then fails in
  the readiness wait, the one connection object it leaves behind has left the idle
  state and is not closed.
\<close>

theorem failed_wait_leaves_connection_open:
  assumes "grpc_NewClient (validate e) ''passthrough:///test'' (ClientConnContext_opts opts) = Inr cc"
    and "ClientConnContext e ctx opts now = Some r"
    and "conn r = None"
  shows "objects r = [Connect cc] \<and> exitedIdle (Connect cc) \<and> \<not> closed (Connect cc) \<and>
         err r = ctx_Err (WithTimeout ctx now (5 * Second)) (at r) \<and>
         (err r = Some DeadlineExceeded \<or> err r = Some Canceled)"
proof -
  from doneAt_WithTimeout [of ctx now "5 * Second"]
  obtain d where "doneAt (WithTimeout ctx now (5 * Second)) = Some d"
    by simp
  from readiness_loop_result [OF this, of e "Connect cc" now] assms
  have "objects r = [Connect cc] \<and> err r = ctx_Err (WithTimeout ctx now (5 * Second)) (at r) \<and>
         (err r = Some DeadlineExceeded \<or> err r = Some Canceled)"
    by (auto simp: ClientConnContext_def)
  moreover from assms(1) have "\<not> closed cc"
    by (auto simp: grpc_NewClient_def Let_def split: option.splits)
  then have "exitedIdle (Connect cc) \<and> \<not> closed (Connect cc)"
    by (simp add: Connect_def)
  ultimately show ?thesis
    by blast
qed

text \<open>A run of C10: the connection never becomes ready and the timeout ends the wait.\<close>

theorem failed_wait_leaves_connection_open_witness:
  "\<exists>r. ClientConnContext env_failing Background [] 0 = Some r \<and> conn r = None \<and>
        err r = Some DeadlineExceeded \<and> objects r = [conn0\<lparr>dopts := dopts (hd (objects r))\<rparr>] \<and>
        \<not> closed (hd (objects r))"
proof -
  let ?cc = "\<lparr>target = ''passthrough:///test'',
              dopts = applyOptions (ClientConnContext_opts []) defaultDialOptions,
              exitedIdle = False, closed = False\<rparr>"
  let ?r = "\<lparr>conn = None, err = Some DeadlineExceeded, at = 5000000000, objects = [Connect ?cc]\<rparr>"
  have n: "grpc_NewClient (validate env_failing) ''passthrough:///test'' (ClientConnContext_opts [])
             = Inr ?cc"
    by (simp add: grpc_NewClient_def env_failing_def)
  have c: "ClientConnContext env_failing Background [] 0 = Some ?r"
    by (simp add: eval_defs)
  have "conn ?r = None"
    by simp
  from failed_wait_leaves_connection_open [OF n c this] c show ?thesis
    by (simp add: conn0_def Connect_def)
qed

text \<open>
  Claim C9: \<open>ClientConn\<close> is \<open>ClientConnContext\<close> with a context that has no deadline
  and is never cancelled. The context of its readiness loop ends exactly 5 seconds after
  the call; the call returns by then, and a failure of the wait is \<open>DeadlineExceeded\<close>
  at that time.
\<close>

theorem ClientConn_refines_spec:
  "ClientConn e opts now = ClientConn_spec e opts now \<and>
   ClientConn e opts now = ClientConnContext e Background opts now \<and>
   doneAt (WithTimeout Background now (5 * Second)) = Some (now + 5 * Second) \<and>
   (\<exists>r. ClientConn e opts now = Some r \<and> at r \<le> now + 5 * Second \<and>
      (objects r \<noteq> [] \<and> conn r = None \<longrightarrow>
         err r = Some DeadlineExceeded \<and> at r = now + 5 * Second))"
proof -
  let ?ctx = "WithTimeout Background now (5 * Second)"
  have d: "doneAt ?ctx = Some (now + 5 * Second)"
    by (simp add: doneAt_WithTimeout) (simp add: doneAt_def Background_def)
  have e: "ctx_Err ?ctx (now + 5 * Second) = Some DeadlineExceeded"
    by (simp add: ctx_Err_def d) (simp add: WithTimeout_def Background_def)
  have "\<exists>r. ClientConn e opts now = Some r \<and> at r \<le> now + 5 * Second \<and>
      (objects r \<noteq> [] \<and> conn r = None \<longrightarrow>
         err r = Some DeadlineExceeded \<and> at r = now + 5 * Second)"
  proof (cases "grpc_NewClient (validate e) ''passthrough:///test'' (ClientConnContext_opts opts)")
    case (Inl er)
    then show ?thesis
      by (simp add: ClientConn_def ClientConnContext_def)
  next
    case (Inr cc)
    from readiness_loop_result [OF d, of e "Connect cc" now] e Inr show ?thesis
      by (auto simp: ClientConn_def ClientConnContext_def)
  qed
  with d show ?thesis
    by (simp add: ClientConn_def ClientConn_spec_def Background_def)
qed

text \<open>A run of C9 that fails at the timeout.\<close>

theorem ClientConn_refines_spec_witness:
  "ClientConn env_failing [] 0 = ClientConnContext env_failing Background [] 0 \<and>
   (\<exists>r. ClientConn env_failing [] 0 = Some r \<and> objects r \<noteq> [] \<and> conn r = None \<and>
      err r = Some DeadlineExceeded \<and> at r = 5 * Second)"
proof -
  from ClientConn_refines_spec [of env_failing "[]" 0]
  obtain r where r: "ClientConn env_failing [] 0 = ClientConnContext env_failing Background [] 0"
    "ClientConn env_failing [] 0 = Some r"
    "objects r \<noteq> [] \<and> conn r = None \<longrightarrow> err r = Some DeadlineExceeded \<and> at r = 0 + 5 * Second"
    by blast
  let ?r = "\<lparr>conn = None, err = Some DeadlineExceeded, at = 5000000000,
        objects = [conn0\<lparr>dopts := applyOptions (ClientConnContext_opts []) defaultDialOptions\<rparr>]\<rparr>"
  have "ClientConn env_failing [] 0 = Some ?r"
    by (simp add: eval_defs conn0_def)
  with r(2) have "r = ?r"
    by simp
  then have "objects r \<noteq> [] \<and> conn r = None"
    by simp
  with r(3) have "objects r \<noteq> [] \<and> conn r = None \<and>
      err r = Some DeadlineExceeded \<and> at r = 5 * Second"
    by simp
  with r(1) r(2) show ?thesis
    by blast
qed

end
